theory Spec2Isabelle
  imports Main "HOL-Library.Char_ord"
begin

section \<open>The Slack notification daemon (notify-slack-app.py)\<close>

text \<open>
  A shallow embedding of \<^verbatim>\<open>src/ru/izebit/notify-slack-app.py\<close>. The daemon polls a
  search backend for error logs, groups them by application, removes near-duplicate
  messages and uploads the survivors to Slack.

  What lies outside the file is a parameter of the model, collected in the record
  \<open>env\<close>: the standard library's \<^verbatim>\<open>str.lower\<close>, \<^verbatim>\<open>datetime.strptime\<close> and
  \<^verbatim>\<open>datetime.strftime\<close>, the clock, the answers of the search backend and the outcome
  of each call to Slack. Every theorem holds for every such environment. What the
  program changes is the record \<open>world\<close>, passed through every function: the objects
  allocated so far, the loader's \<^verbatim>\<open>_last_update_time\<close>, and the requests made.
  Output to the console (\<^verbatim>\<open>print\<close>) and \<^verbatim>\<open>time.sleep\<close> are not modelled.
\<close>

subsection \<open>Errors, constants and the environment\<close>

text \<open>
  Exceptions derived from \<^verbatim>\<open>Exception\<close>, each with the text \<^verbatim>\<open>str(e)\<close> yields. These
  are the ones an \<^verbatim>\<open>except Exception\<close> clause catches.
\<close>

datatype error =
    KeyError string
  | ValueError string
  | TypeError string
  | AttributeError string
  | URLError string

fun error_str :: "error \<Rightarrow> string" where
  "error_str (KeyError s) = s"
| "error_str (ValueError s) = s"
| "error_str (TypeError s) = s"
| "error_str (AttributeError s) = s"
| "error_str (URLError s) = s"

definition DUPLICATE_THRESHOLD :: int where
  "DUPLICATE_THRESHOLD = 10"

definition RECIPIENTS :: "(string \<times> string) list" where
  "RECIPIENTS = [(''<service-name>'', ''@<slack-nickname>'')]"

text \<open>A key of a JSON object: absent, or present with a value.\<close>

datatype 'a field = Absent | Present 'a

text \<open>
  The \<^verbatim>\<open>_source\<close> object of one search hit. The values of \<^verbatim>\<open>message\<close> and
  \<^verbatim>\<open>stacktrace\<close> may be JSON \<^verbatim>\<open>null\<close> (\<open>None\<close>); the other values are strings.
\<close>

record source =
  src_application :: "string field"
  src_severity :: "string field"
  src_message :: "string option field"
  src_stacktrace :: "string option field"
  src_timestamp :: "string field"

text \<open>One element of \<^verbatim>\<open>['hits']['hits']\<close>: its key \<^verbatim>\<open>_source\<close>.\<close>

type_synonym entry = "source field"

text \<open>
  The environment. \<open>'t\<close> is the type of \<^verbatim>\<open>datetime\<close> values, ordered as Python
  orders them.
  \<^item> \<open>str_lower s\<close> is \<^verbatim>\<open>s.lower()\<close>;
  \<^item> \<open>strptime s f\<close> is \<^verbatim>\<open>datetime.datetime.strptime(s, f)\<close>, the value or the exception;
  \<^item> \<open>strftime d f\<close> is \<^verbatim>\<open>d.strftime(f)\<close>;
  \<^item> \<open>today k\<close> is what the \<open>k\<close>-th call of \<^verbatim>\<open>datetime.datetime.today()\<close> returns;
  \<^item> \<open>search k\<close> is what the \<open>k\<close>-th search request returns from
    \<^verbatim>\<open>_load_json\<close>: the hits, or the exception of the transport or of the JSON decoding;
  \<^item> \<open>urlopen k\<close> is the exception the \<open>k\<close>-th request to Slack raises, if any.
\<close>

record 't env =
  str_lower :: "string \<Rightarrow> string"
  strptime :: "string \<Rightarrow> string \<Rightarrow> error + 't"
  strftime :: "'t \<Rightarrow> string \<Rightarrow> string"
  today :: "nat \<Rightarrow> 't"
  search :: "nat \<Rightarrow> error + entry list"
  urlopen :: "nat \<Rightarrow> error option"

subsection \<open>class Log\<close>

record 't Log =
  application :: string
  severity :: string
  message :: "string option"
  stacktrace :: string
  date :: 't

text \<open>
  Objects are held by reference. A reference is the index of the object in the list of
  all objects allocated so far (\<open>heap\<close>); two references are the same object exactly
  when they are equal.
\<close>

type_synonym ref = nat

text \<open>A request sent to Slack: a message to the web hook, or a file upload.\<close>

datatype slack_call =
    Webhook_post string string string string string
  | Files_upload "(string \<times> string) list"

text \<open>Whether a request is a file upload.\<close>

fun is_upload :: "slack_call \<Rightarrow> bool" where
  "is_upload (Files_upload params) = True"
| "is_upload (Webhook_post url title color pretext text') = False"

record 't world =
  heap :: "'t Log list"
  clock_reads :: nat
  last_update_time :: 't
  requests :: "'t list"
  sent :: "slack_call list"

subsubsection \<open>\<^verbatim>\<open>__eq__\<close>\<close>

text \<open>
  The values \<^verbatim>\<open>__eq__\<close> can meet as \<^verbatim>\<open>other\<close> or as an attribute: an instance of
  \<^verbatim>\<open>Log\<close>, a class object, \<^verbatim>\<open>None\<close>, a string, a datetime.
\<close>

datatype pyclass = Log_cls | type_cls | NoneType_cls | str_cls | datetime_cls

datatype 't pyobj =
    Instance "'t Log"
  | Class pyclass
  | NoneObj
  | Str string
  | Datetime 't

text \<open>\<^verbatim>\<open>x.__class__\<close>. The class of a class object is the metaclass \<^verbatim>\<open>type\<close>.\<close>

fun class_of :: "'t pyobj \<Rightarrow> pyclass" where
  "class_of (Instance l) = Log_cls"
| "class_of (Class c) = type_cls"
| "class_of NoneObj = NoneType_cls"
| "class_of (Str s) = str_cls"
| "class_of (Datetime d) = datetime_cls"

text \<open>None of these classes is a subclass of another one of them.\<close>

definition isinstance :: "'t pyobj \<Rightarrow> pyclass \<Rightarrow> bool" where
  "isinstance x c = (class_of x = c)"

fun opt_str :: "string option \<Rightarrow> 't pyobj" where
  "opt_str None = NoneObj"
| "opt_str (Some s) = Str s"

text \<open>
  \<^verbatim>\<open>x.name\<close> for the five attributes. The class \<^verbatim>\<open>Log\<close> has all five as class
  attributes, set to \<^verbatim>\<open>None\<close> (lines 95 to 99); the other objects have none of them.
\<close>

fun getattr :: "'t pyobj \<Rightarrow> string \<Rightarrow> error + 't pyobj" where
  "getattr (Instance l) name =
     (if name = ''application'' then Inr (Str (application l))
      else if name = ''severity'' then Inr (Str (severity l))
      else if name = ''message'' then Inr (opt_str (message l))
      else if name = ''stacktrace'' then Inr (Str (stacktrace l))
      else if name = ''date'' then Inr (Datetime (date l))
      else Inl (AttributeError name))"
| "getattr (Class Log_cls) name =
     (if name \<in> set [''application'', ''severity'', ''message'', ''stacktrace'', ''date'']
      then Inr NoneObj else Inl (AttributeError name))"
| "getattr x name = Inl (AttributeError name)"

text \<open>
  \<^verbatim>\<open>Log.__eq__(self, other)\<close>, lines 108 to 116. \<^verbatim>\<open>and\<close> evaluates its right operand
  only when the left one is true. Strings, datetimes and \<^verbatim>\<open>None\<close> are compared by value.
\<close>

definition Log_eq :: "'t Log \<Rightarrow> 't pyobj \<Rightarrow> error + bool" where
  "Log_eq self other =
     (if \<not> isinstance other (class_of (Class Log_cls :: 't pyobj)) then Inr False
      else
        (case getattr other ''application'' of
           Inl e \<Rightarrow> Inl e
         | Inr other_application \<Rightarrow>
             if Str (application self) \<noteq> other_application then Inr False
             else
               (case getattr other ''severity'' of
                  Inl e \<Rightarrow> Inl e
                | Inr other_severity \<Rightarrow>
                    if Str (severity self) \<noteq> other_severity then Inr False
                    else
                      (case getattr other ''date'' of
                         Inl e \<Rightarrow> Inl e
                       | Inr other_date \<Rightarrow>
                           if Datetime (date self) \<noteq> other_date then Inr False
                           else Inr (message self = message self \<and>
                                     stacktrace self = stacktrace self)))))"

subsubsection \<open>\<^verbatim>\<open>_parse_timestamp\<close> and \<^verbatim>\<open>__init__\<close>\<close>

text \<open>
  \<^verbatim>\<open>Log._parse_timestamp(dt_str)\<close>, lines 126 to 134: two nested \<^verbatim>\<open>try\<close> blocks, each
  catching every \<^verbatim>\<open>Exception\<close>. Only the last branch reads the clock.
\<close>

definition parse_timestamp ::
  "'t env \<Rightarrow> string \<Rightarrow> 't world \<Rightarrow> (error + 't) \<times> 't world" where
  "parse_timestamp env dt_str w =
     (case strptime env dt_str ''%Y-%m-%dT%H:%M:%S.%fZ'' of
        Inr dt \<Rightarrow> (Inr dt, w)
      | Inl e \<Rightarrow>
          (case strptime env dt_str ''%Y-%m-%dT%H:%M:%SZ'' of
             Inr dt \<Rightarrow> (Inr dt, w)
           | Inl e' \<Rightarrow>
               (Inr (today env (clock_reads w)), w\<lparr>clock_reads := clock_reads w + 1\<rparr>)))"

text \<open>
  \<^verbatim>\<open>Log(application, severity, message, stacktrace, timestamp)\<close>, lines 101 to 106: a
  new object, returned by reference.
\<close>

definition Log_init ::
  "'t env \<Rightarrow> string \<Rightarrow> string \<Rightarrow> string option \<Rightarrow> string option \<Rightarrow> string \<Rightarrow> 't world
     \<Rightarrow> (error + ref) \<times> 't world" where
  "Log_init env application' severity' message' stacktrace' timestamp w =
     (case parse_timestamp env timestamp w of
        (Inl e, w') \<Rightarrow> (Inl e, w')
      | (Inr dt, w') \<Rightarrow>
          (Inr (length (heap w')),
           w'\<lparr>heap := heap w' @
                [\<lparr>application = application', severity = severity', message = message',
                  stacktrace = (case stacktrace' of None \<Rightarrow> '''' | Some s \<Rightarrow> s),
                  date = dt\<rparr>]\<rparr>))"

subsubsection \<open>\<^verbatim>\<open>_is_duplicate\<close>\<close>

text \<open>
  The loop of lines 147 to 154 over \<^verbatim>\<open>range(0, min_len)\<close>, with its early
  \<^verbatim>\<open>return True\<close>, and the \<^verbatim>\<open>return\<close> of line 156 when the range is used up.
\<close>

fun is_duplicate_loop ::
  "string \<Rightarrow> string \<Rightarrow> int \<Rightarrow> nat list \<Rightarrow> int \<Rightarrow> int \<Rightarrow> bool" where
  "is_duplicate_loop s1 s2 threshold [] result count = (max result count > threshold)"
| "is_duplicate_loop s1 s2 threshold (index # rest) result count =
     (if s1 ! index = s2 ! index
      then (if count + 1 \<ge> threshold then True
            else is_duplicate_loop s1 s2 threshold rest result (count + 1))
      else is_duplicate_loop s1 s2 threshold rest (max result count) 0)"

definition is_duplicate :: "'t env \<Rightarrow> string option \<Rightarrow> string option \<Rightarrow> int \<Rightarrow> bool" where
  "is_duplicate env s1 s2 threshold =
     (case s1 of
        None \<Rightarrow> False
      | Some a \<Rightarrow>
          (case s2 of
             None \<Rightarrow> False
           | Some b \<Rightarrow>
               (let s1' = str_lower env a;
                    s2' = str_lower env b;
                    min_len = min (length s1') (length s2')
                in is_duplicate_loop s1' s2' threshold [0..<min_len] 0 0)))"

text \<open>
  The property \<^verbatim>\<open>_is_duplicate\<close> is specified by: from position \<open>i\<close> on, the strings
  \<open>a\<close> and \<open>b\<close> both have \<open>n\<close> characters, the same ones.
\<close>

definition aligned_run :: "string \<Rightarrow> string \<Rightarrow> nat \<Rightarrow> nat \<Rightarrow> bool" where
  "aligned_run a b i n =
     (i + n \<le> length a \<and> i + n \<le> length b \<and> take n (drop i a) = take n (drop i b))"

subsubsection \<open>\<^verbatim>\<open>remove_useless_logs\<close>\<close>

text \<open>
  A Python \<^verbatim>\<open>set\<close> of \<^verbatim>\<open>Log\<close> objects, as the list of its elements. An element of
  the set matches a key when it is the same object or \<^verbatim>\<open>__eq__\<close> returns true;
  \<^verbatim>\<open>__hash__\<close> only chooses where to look, and the same object has the same hash.
  \<^verbatim>\<open>__eq__\<close> raises nothing when both are instances of \<^verbatim>\<open>Log\<close>. The order in which
  Python iterates over a set is not specified: the order of the list stands for one
  possible order, and no theorem below depends on it.
\<close>

definition same_key :: "(ref \<Rightarrow> 't Log) \<Rightarrow> ref \<Rightarrow> ref \<Rightarrow> bool" where
  "same_key obj x y = (x = y \<or> Log_eq (obj x) (Instance (obj y)) = Inr True)"

definition set_contains :: "(ref \<Rightarrow> 't Log) \<Rightarrow> ref list \<Rightarrow> ref \<Rightarrow> bool" where
  "set_contains obj s x = list_ex (\<lambda>y. same_key obj y x) s"

definition set_add :: "(ref \<Rightarrow> 't Log) \<Rightarrow> ref \<Rightarrow> ref list \<Rightarrow> ref list" where
  "set_add obj x s = (if set_contains obj s x then s else s @ [x])"

definition set_remove :: "(ref \<Rightarrow> 't Log) \<Rightarrow> ref \<Rightarrow> ref list \<Rightarrow> ref list" where
  "set_remove obj x s = filter (\<lambda>y. \<not> same_key obj y x) s"

definition set_of_list :: "(ref \<Rightarrow> 't Log) \<Rightarrow> ref list \<Rightarrow> ref list" where
  "set_of_list obj items = fold (set_add obj) items []"

text \<open>
  \<^verbatim>\<open>Log.remove_useless_logs(items)\<close>, lines 159 to 168. \<open>obj\<close> reads an object through
  its reference. The function changes \<^verbatim>\<open>items\<close> in place; the model returns the new
  content.
\<close>

definition remove_useless_logs :: "'t env \<Rightarrow> (ref \<Rightarrow> 't Log) \<Rightarrow> ref list \<Rightarrow> ref list" where
  "remove_useless_logs env obj items =
     (let tmp_set = set_of_list obj items
      in fold
           (\<lambda>i. fold
              (\<lambda>j tmp_set.
                 if is_duplicate env (message (obj (items ! i))) (message (obj (items ! j)))
                      DUPLICATE_THRESHOLD
                    \<and> set_contains obj tmp_set (items ! j)
                 then set_remove obj (items ! j) tmp_set
                 else tmp_set)
              [i + 1..<length items])
           [0..<length items] tmp_set)"

text \<open>
  The test of line 164 on the positions \<open>i\<close> and \<open>j\<close> of \<^verbatim>\<open>items\<close>, without the
  membership in \<^verbatim>\<open>tmp_set\<close>.
\<close>

definition dup_at :: "'t env \<Rightarrow> (ref \<Rightarrow> 't Log) \<Rightarrow> ref list \<Rightarrow> nat \<Rightarrow> nat \<Rightarrow> bool" where
  "dup_at env obj items i j =
     is_duplicate env (message (obj (items ! i))) (message (obj (items ! j))) DUPLICATE_THRESHOLD"

subsection \<open>class ElasticSearchLoader\<close>

text \<open>
  \<^verbatim>\<open>_load_json()\<close>, lines 188 to 229: one request, whose range filter carries
  \<^verbatim>\<open>_last_update_time\<close>; the answer is the environment's.
\<close>

definition load_json :: "'t env \<Rightarrow> 't world \<Rightarrow> (error + entry list) \<times> 't world" where
  "load_json env w =
     (search env (length (requests w)), w\<lparr>requests := requests w @ [last_update_time w]\<rparr>)"

text \<open>
  \<^verbatim>\<open>_parse(data)\<close>, lines 232 to 245. \<^verbatim>\<open>d[key]\<close> raises \<^verbatim>\<open>KeyError\<close> on an absent
  key, \<^verbatim>\<open>d.get(key, '')\<close> returns the empty string.
\<close>

fun parse :: "'t env \<Rightarrow> entry list \<Rightarrow> 't world \<Rightarrow> (error + ref list) \<times> 't world" where
  "parse env [] w = (Inr [], w)"
| "parse env (entry # data) w =
     (case entry of
        Absent \<Rightarrow> (Inl (KeyError ''_source''), w)
      | Present information \<Rightarrow>
          (case src_application information of
             Absent \<Rightarrow> (Inl (KeyError ''application''), w)
           | Present application' \<Rightarrow>
               (case src_severity information of
                  Absent \<Rightarrow> (Inl (KeyError ''severity''), w)
                | Present severity' \<Rightarrow>
                    (let message' = (case src_message information of
                                       Absent \<Rightarrow> Some '''' | Present m \<Rightarrow> m);
                         stacktrace' = (case src_stacktrace information of
                                          Absent \<Rightarrow> Some '''' | Present s \<Rightarrow> s)
                     in case src_timestamp information of
                          Absent \<Rightarrow> (Inl (KeyError ''@timestamp''), w)
                        | Present timestamp \<Rightarrow>
                            (case Log_init env application' severity' message' stacktrace'
                                    timestamp w of
                               (Inl e, w') \<Rightarrow> (Inl e, w')
                             | (Inr log, w') \<Rightarrow>
                                 (case parse env data w' of
                                    (Inl e, w'') \<Rightarrow> (Inl e, w'')
                                  | (Inr result, w'') \<Rightarrow> (Inr (log # result), w'')))))))"

text \<open>
  The dictionary \<^verbatim>\<open>result\<close> of \<^verbatim>\<open>load\<close>, as an association list in the order of
  insertion: \<^verbatim>\<open>result.setdefault(k, [])\<close> and \<^verbatim>\<open>result.get(k).append(x)\<close>.
\<close>

type_synonym grouped = "(string \<times> ref list) list"

definition setdefault :: "grouped \<Rightarrow> string \<Rightarrow> ref list \<Rightarrow> grouped" where
  "setdefault d k v = (if map_of d k = None then d @ [(k, v)] else d)"

definition get_append :: "grouped \<Rightarrow> string \<Rightarrow> ref \<Rightarrow> grouped" where
  "get_append d k x = map (\<lambda>(k', v). if k' = k then (k', v @ [x]) else (k', v)) d"

text \<open>The body of the loop of lines 258 to 261, for one log.\<close>

definition load_log :: "ref \<Rightarrow> grouped \<times> 't::linorder world \<Rightarrow> grouped \<times> 't world" where
  "load_log log = (\<lambda>(result, w).
     (let l = heap w ! log;
          result' = get_append (setdefault result (application l) []) (application l) log
      in (result', w\<lparr>last_update_time := max (date l) (last_update_time w)\<rparr>)))"

text \<open>
  The \<^verbatim>\<open>while True\<close> loop of lines 251 to 263. It ends at the first empty page or at
  the first exception; against a backend that always has one more page it never
  returns, which is the value \<open>None\<close>.
\<close>

partial_function (option) load_loop ::
  "'t::linorder env \<Rightarrow> grouped \<Rightarrow> 't world \<Rightarrow> ((error + grouped) \<times> 't world) option" where
  "load_loop env result w =
     (case load_json env w of
        (Inl e, w1) \<Rightarrow> Some (Inl e, w1)
      | (Inr data, w1) \<Rightarrow>
          if length data = 0 then Some (Inr result, w1)
          else
            (case parse env data w1 of
               (Inl e, w2) \<Rightarrow> Some (Inl e, w2)
             | (Inr logs, w2) \<Rightarrow>
                 (case fold load_log logs (result, w2) of
                    (result', w3) \<Rightarrow> load_loop env result' w3)))"

declare load_loop.simps [code]

text \<open>
  \<^verbatim>\<open>load()\<close>, lines 247 to 268. An exception leaves the loop and the function at once;
  the changes made to \<^verbatim>\<open>self\<close> before it stay.
\<close>

definition load ::
  "'t::linorder env \<Rightarrow> 't world \<Rightarrow> ((error + grouped) \<times> 't world) option" where
  "load env w =
     (case load_loop env [] w of
        None \<Rightarrow> None
      | Some (Inl e, w') \<Rightarrow> Some (Inl e, w')
      | Some (Inr result, w') \<Rightarrow>
          Some (Inr (map (\<lambda>(app, log_list).
                            (app, remove_useless_logs env ((!) (heap w')) log_list))
                       result),
                w'))"

subsubsection \<open>Describing a run of \<^verbatim>\<open>load\<close>\<close>

text \<open>
  The words the properties of \<^verbatim>\<open>load\<close> are stated in. A hit is well formed when the
  keys \<^verbatim>\<open>_parse\<close> reads with \<^verbatim>\<open>[]\<close> are present. \<open>serves env k pages\<close>: from request
  number \<open>k\<close> on, the backend answers with the pages \<open>pages\<close>, none of them empty and
  all of well-formed hits, and then with an empty page. \<open>entry_application\<close> and
  \<open>entry_message\<close> are what \<^verbatim>\<open>_parse\<close> reads from a hit. \<open>grouped_by h refs d\<close>: the
  dictionary \<open>d\<close> has, for each application, the references of \<open>refs\<close> to the logs of
  that application, in the order of \<open>refs\<close>, and no key for an application without logs.
\<close>

definition well_formed :: "entry \<Rightarrow> bool" where
  "well_formed entry =
     (case entry of
        Absent \<Rightarrow> False
      | Present information \<Rightarrow>
          src_application information \<noteq> Absent \<and> src_severity information \<noteq> Absent
          \<and> src_timestamp information \<noteq> Absent)"

fun serves :: "'t env \<Rightarrow> nat \<Rightarrow> entry list list \<Rightarrow> bool" where
  "serves env k [] = (search env k = Inr [])"
| "serves env k (page # pages) =
     (search env k = Inr page \<and> page \<noteq> [] \<and> list_all well_formed page
      \<and> serves env (Suc k) pages)"

definition entry_application :: "entry \<Rightarrow> string" where
  "entry_application entry =
     (case entry of
        Absent \<Rightarrow> ''''
      | Present information \<Rightarrow>
          (case src_application information of Absent \<Rightarrow> '''' | Present a \<Rightarrow> a))"

definition entry_message :: "entry \<Rightarrow> string option" where
  "entry_message entry =
     (case entry of
        Absent \<Rightarrow> None
      | Present information \<Rightarrow>
          (case src_message information of Absent \<Rightarrow> Some '''' | Present m \<Rightarrow> m))"

definition grouped_by :: "'t Log list \<Rightarrow> ref list \<Rightarrow> grouped \<Rightarrow> bool" where
  "grouped_by h refs d =
     (distinct (map fst d)
      \<and> (\<forall>app. map_of d app =
            (let log_list = filter (\<lambda>r. application (h ! r) = app) refs
             in if log_list = [] then None else Some log_list)))"

subsection \<open>class SlackSender\<close>

record SlackSender =
  bot_token :: string
  channel_name :: string
  channel_web_hook_url :: string

text \<open>
  \<^verbatim>\<open>_send_msg\<close>, lines 37 to 56: one request to the web hook. \<^verbatim>\<open>urlopen\<close> raises
  when the environment says so.
\<close>

definition send_msg ::
  "'t env \<Rightarrow> SlackSender \<Rightarrow> string \<Rightarrow> string \<Rightarrow> string \<Rightarrow> string \<Rightarrow> 't world
     \<Rightarrow> (error + unit) \<times> 't world" where
  "send_msg env self title text' pretext color w =
     (let url = ''https://hooks.slack.com/services/'' @ channel_web_hook_url self;
          w' = w\<lparr>sent := sent w @ [Webhook_post url title color pretext text']\<rparr>
      in case urlopen env (length (sent w)) of
           Some e \<Rightarrow> (Inl e, w')
         | None \<Rightarrow> (Inr (), w'))"

definition send_info ::
  "'t env \<Rightarrow> SlackSender \<Rightarrow> string \<Rightarrow> 't world \<Rightarrow> (error + unit) \<times> 't world" where
  "send_info env self text' w = send_msg env self ''Hi'' text' '':rocket:'' ''good'' w"

definition send_error ::
  "'t env \<Rightarrow> SlackSender \<Rightarrow> string \<Rightarrow> 't world \<Rightarrow> (error + unit) \<times> 't world" where
  "send_error env self text' w =
     send_msg env self ''Error:'' text' ''There is something wrong with me :warning:''
       ''danger'' w"

text \<open>\<^verbatim>\<open>'{}'.format(x)\<close> for a string or \<^verbatim>\<open>None\<close>.\<close>

fun format_opt :: "string option \<Rightarrow> string" where
  "format_opt None = ''None''"
| "format_opt (Some s) = s"

text \<open>The inner loop of \<^verbatim>\<open>send_data\<close>, lines 72 to 91: one upload for each log.\<close>

fun send_logs ::
  "'t env \<Rightarrow> SlackSender \<Rightarrow> string \<Rightarrow> ref list \<Rightarrow> 't world \<Rightarrow> (error + unit) \<times> 't world" where
  "send_logs env self app_name [] w = (Inr (), w)"
| "send_logs env self app_name (log # logs) w =
     (let l = heap w ! log;
          recipients = (case map_of RECIPIENTS (str_lower env app_name) of
                          None \<Rightarrow> ''anonymous'' | Some r \<Rightarrow> r);
          request_params =
            [(''channels'', channel_name self),
             (''token'', bot_token self),
             (''filetype'', ''java''),
             (''title'', application l @ ''-'' @ severity l),
             (''filename'', app_name @ ''.log''),
             (''content'', format_opt (message l) @ [CHR 0x0A] @ stacktrace l),
             (''initial_comment'',
                ''application: '' @ application l @ '' '' @ [CHR 0x0A] @
                ''members: '' @ recipients @ [CHR 0x0A] @
                ''date: '' @ strftime env (date l) ''%Y-%m-%d %H:%M'')];
          w' = w\<lparr>sent := sent w @ [Files_upload request_params]\<rparr>
      in case urlopen env (length (sent w)) of
           Some e \<Rightarrow> (Inl e, w')
         | None \<Rightarrow> send_logs env self app_name logs w')"

text \<open>The outer loop, line 70, over \<^verbatim>\<open>items.items()\<close>.\<close>

fun send_items ::
  "'t env \<Rightarrow> SlackSender \<Rightarrow> grouped \<Rightarrow> 't world \<Rightarrow> (error + unit) \<times> 't world" where
  "send_items env self [] w = (Inr (), w)"
| "send_items env self ((app_name, logs) # items) w =
     (case send_logs env self app_name logs w of
        (Inl e, w') \<Rightarrow> (Inl e, w')
      | (Inr u, w') \<Rightarrow> send_items env self items w')"

text \<open>\<^verbatim>\<open>send_data(items)\<close>, lines 64 to 91.\<close>

definition send_data ::
  "'t env \<Rightarrow> SlackSender \<Rightarrow> grouped \<Rightarrow> 't world \<Rightarrow> (error + unit) \<times> 't world" where
  "send_data env self items w =
     (if length items = 0 then (Inr (), w) else send_items env self items w)"

subsection \<open>class Watcher\<close>

text \<open>
  One pass through the body of the loop of \<^verbatim>\<open>watcher\<close>, lines 283 to 296. An exception
  raised inside an \<^verbatim>\<open>except\<close> clause is not caught: it leaves the loop.
\<close>

definition watcher_iteration ::
  "'t::linorder env \<Rightarrow> SlackSender \<Rightarrow> 't world \<Rightarrow> ((error + unit) \<times> 't world) option" where
  "watcher_iteration env sender w =
     (case load env w of
        None \<Rightarrow> None
      | Some (loaded, w1) \<Rightarrow>
          (case (case loaded of
                   Inr logs \<Rightarrow> (Inr logs, w1)
                 | Inl e \<Rightarrow>
                     (case send_error env sender
                             (''error happened while loading logs from elastic search:'' @
                              error_str e) w1 of
                        (Inl e', w2) \<Rightarrow> (Inl e', w2)
                      | (Inr u, w2) \<Rightarrow> (Inr [], w2))) of
             (Inl e, w2) \<Rightarrow> Some (Inl e, w2)
           | (Inr logs, w2) \<Rightarrow>
               (case send_data env sender logs w2 of
                  (Inr u, w3) \<Rightarrow> Some (Inr (), w3)
                | (Inl e, w3) \<Rightarrow>
                    Some (send_error env sender
                            (''error happened while sending notifies about errors: '' @
                             error_str e) w3))))"

text \<open>
  The loop never ends by itself: it returns only the exception that left it.
\<close>

partial_function (option) watcher_loop ::
  "'t::linorder env \<Rightarrow> SlackSender \<Rightarrow> 't world \<Rightarrow> (error \<times> 't world) option" where
  "watcher_loop env sender w =
     (case watcher_iteration env sender w of
        None \<Rightarrow> None
      | Some (Inl e, w') \<Rightarrow> Some (e, w')
      | Some (Inr u, w') \<Rightarrow> watcher_loop env sender w')"

declare watcher_loop.simps [code]

text \<open>\<^verbatim>\<open>watcher()\<close>, lines 279 to 296.\<close>

definition watcher ::
  "'t::linorder env \<Rightarrow> SlackSender \<Rightarrow> 't world \<Rightarrow> (error \<times> 't world) option" where
  "watcher env sender w =
     (case send_info env sender ''i started to work'' w of
        (Inl e, w') \<Rightarrow> Some (e, w')
      | (Inr u, w') \<Rightarrow> watcher_loop env sender w')"

subsection \<open>A sample environment\<close>

text \<open>
  One environment and one sender on which the model is run: \<^verbatim>\<open>lower\<close> on ASCII
  letters, a \<^verbatim>\<open>strptime\<close> that accepts one text in each format, a clock that ticks at
  each reading, a backend with one page of three hits, and a Slack that accepts
  every request.
\<close>

definition ascii_lower :: "char \<Rightarrow> char" where
  "ascii_lower c =
     (if CHR ''A'' \<le> c \<and> c \<le> CHR ''Z'' then char_of (of_char c + (32::nat)) else c)"

definition sample_hit :: "string \<Rightarrow> string \<Rightarrow> string \<Rightarrow> entry" where
  "sample_hit app msg ts =
     Present \<lparr>src_application = Present app, src_severity = Present ''error'',
              src_message = Present (Some msg), src_stacktrace = Absent,
              src_timestamp = Present ts\<rparr>"

definition sample_page :: "entry list" where
  "sample_page =
     [sample_hit ''A'' ''NPE at line 10 in FooService'' ''2023-01-02T03:04:05Z'',
      sample_hit ''B'' ''disk is full'' ''not-a-date'',
      sample_hit ''A'' ''NPE at line 10 in FooService xyz123'' ''2023-01-02T03:04:05.123456Z'']"

definition sample_env :: "int env" where
  "sample_env =
     \<lparr>str_lower = map ascii_lower,
      strptime = (\<lambda>s f.
         if s = ''2023-01-02T03:04:05.123456Z'' \<and> f = ''%Y-%m-%dT%H:%M:%S.%fZ''
         then Inr 1672628645123456
         else if s = ''2023-01-02T03:04:05Z'' \<and> f = ''%Y-%m-%dT%H:%M:%SZ''
         then Inr 1672628645000000
         else Inl (ValueError ''time data does not match format'')),
      strftime = (\<lambda>d f. ''2023-01-02 03:04''),
      today = (\<lambda>k. 1700000000000000 + int k),
      search = (\<lambda>k. if k = 0 then Inr sample_page else Inr []),
      urlopen = (\<lambda>k. None)\<rparr>"

definition sample_sender :: SlackSender where
  "sample_sender =
     \<lparr>bot_token = ''token'', channel_name = ''errors'', channel_web_hook_url = ''hook''\<rparr>"

definition sample_world :: "int world" where
  "sample_world =
     \<lparr>heap = [], clock_reads = 0, last_update_time = 1600000000000000, requests = [],
      sent = []\<rparr>"

text \<open>Three objects: the first and the third have near-duplicate messages.\<close>

definition sample_heap :: "int Log list" where
  "sample_heap =
     [\<lparr>application = ''A'', severity = ''error'',
       message = Some ''NPE at line 10 in FooService'', stacktrace = '''',
       date = 1672628645000000\<rparr>,
      \<lparr>application = ''B'', severity = ''error'',
       message = Some ''disk is full'', stacktrace = '''',
       date = 1700000000000000\<rparr>,
      \<lparr>application = ''A'', severity = ''error'',
       message = Some ''NPE at line 10 in FooService xyz123'', stacktrace = '''',
       date = 1672628645123456\<rparr>]"

text \<open>The world after \<^verbatim>\<open>load\<close> has run in the sample environment.\<close>

definition sample_loaded :: "int world" where
  "sample_loaded =
     \<lparr>heap = sample_heap, clock_reads = 1, last_update_time = 1700000000000000,
      requests = [1600000000000000, 1700000000000000], sent = []\<rparr>"

text \<open>The same environment with a backend that fails at every request.\<close>

definition failing_env :: "int env" where
  "failing_env = sample_env\<lparr>search := (\<lambda>k. Inl (URLError ''timed out''))\<rparr>"

section \<open>Properties\<close>

subsection \<open>\<^verbatim>\<open>_is_duplicate\<close> finds the aligned runs\<close>

lemma aligned_run_nth:
  "aligned_run a b i n =
     (i + n \<le> length a \<and> i + n \<le> length b \<and> (\<forall>m<n. a ! (i + m) = b ! (i + m)))"
  unfolding aligned_run_def
  by (auto simp: list_eq_iff_nth_eq min_def)

lemma aligned_run_shorter: "aligned_run a b i n \<Longrightarrow> m \<le> n \<Longrightarrow> aligned_run a b i m"
  by (simp add: aligned_run_nth)

lemma aligned_run_sym: "aligned_run a b i n = aligned_run b a i n"
  by (auto simp: aligned_run_def)

text \<open>
  The invariant of the loop at index \<open>k\<close>: the last \<open>c\<close> positions agree, \<open>c\<close> and
  \<open>result\<close> are below the threshold. From there the loop returns true exactly when a
  run of \<open>t\<close> equal positions starts at \<open>k - c\<close> or later.
\<close>

lemma is_duplicate_loop_runs:
  assumes "1 \<le> t" "c < t" "result < int t" "c \<le> k" "n \<le> length a" "n \<le> length b"
    and "\<forall>m<c. a ! (k - c + m) = b ! (k - c + m)"
  shows "is_duplicate_loop a b (int t) [k..<n] result (int c) =
         (\<exists>i. k - c \<le> i \<and> i + t \<le> n \<and> (\<forall>m<t. a ! (i + m) = b ! (i + m)))"
  using assms
proof (induction "n - k" arbitrary: k c result)
  case 0
  then have "[k..<n] = []" by simp
  moreover have "\<not> (\<exists>i. k - c \<le> i \<and> i + t \<le> n)" using 0 by auto
  ultimately show ?case using 0 by auto
next
  case (Suc d)
  then have kn: "k < n" and d: "d = n - Suc k" by auto
  have upt: "[k..<n] = k # [Suc k..<n]" using kn by (simp add: upt_conv_Cons)
  show ?case
  proof (cases "a ! k = b ! k")
    case True
    show ?thesis
    proof (cases "Suc c = t")
      case full: True
      have "\<forall>m<t. a ! (k - c + m) = b ! (k - c + m)"
      proof (intro allI impI)
        fix m assume "m < t"
        then have "m < c \<or> m = c" using full by auto
        then show "a ! (k - c + m) = b ! (k - c + m)"
          using Suc.prems(7) True Suc.prems(4) by auto
      qed
      moreover have "k - c + t \<le> n" using full kn Suc.prems(4) by auto
      ultimately have "\<exists>i. k - c \<le> i \<and> i + t \<le> n \<and> (\<forall>m<t. a ! (i + m) = b ! (i + m))"
        by blast
      then show ?thesis using upt True full by auto
    next
      case notfull: False
      then have lt: "Suc c < t" using Suc.prems(2) by auto
      have inv: "\<forall>m<Suc c. a ! (Suc k - Suc c + m) = b ! (Suc k - Suc c + m)"
      proof (intro allI impI)
        fix m assume "m < Suc c"
        then have "m < c \<or> m = c" by auto
        then show "a ! (Suc k - Suc c + m) = b ! (Suc k - Suc c + m)"
          using Suc.prems(7) True Suc.prems(4) by auto
      qed
      have IH: "is_duplicate_loop a b (int t) [Suc k..<n] result (int (Suc c)) =
         (\<exists>i. Suc k - Suc c \<le> i \<and> i + t \<le> n \<and> (\<forall>m<t. a ! (i + m) = b ! (i + m)))"
        using Suc.hyps(1)[OF d Suc.prems(1) lt Suc.prems(3) _ Suc.prems(5,6) inv] Suc.prems(4)
        by simp
      show ?thesis using upt True lt IH by (simp add: add.commute)
    qed
  next
    case False
    have r: "max result (int c) < int t" using Suc.prems(2,3) by simp
    have IH: "is_duplicate_loop a b (int t) [Suc k..<n] (max result (int c)) (int 0) =
         (\<exists>i. Suc k - 0 \<le> i \<and> i + t \<le> n \<and> (\<forall>m<t. a ! (i + m) = b ! (i + m)))"
      using Suc.hyps(1)[OF d Suc.prems(1) _ r _ Suc.prems(5,6), of 0] Suc.prems(1) by simp
    have "(\<exists>i. k - c \<le> i \<and> i + t \<le> n \<and> (\<forall>m<t. a ! (i + m) = b ! (i + m))) =
          (\<exists>i. Suc k \<le> i \<and> i + t \<le> n \<and> (\<forall>m<t. a ! (i + m) = b ! (i + m)))"
    proof (intro iffI; elim exE conjE)
      fix i assume i: "k - c \<le> i" "i + t \<le> n" "\<forall>m<t. a ! (i + m) = b ! (i + m)"
      have "Suc k \<le> i"
      proof (rule ccontr)
        assume "\<not> Suc k \<le> i"
        then have "i \<le> k" by simp
        moreover have "k - i < t" using i(1) Suc.prems(2,4) by auto
        ultimately have "a ! (i + (k - i)) = b ! (i + (k - i))" using i(3) by blast
        then show False using False \<open>i \<le> k\<close> by simp
      qed
      then show "\<exists>i. Suc k \<le> i \<and> i + t \<le> n \<and> (\<forall>m<t. a ! (i + m) = b ! (i + m))"
        using i by blast
    next
      fix i assume i: "Suc k \<le> i" "i + t \<le> n" "\<forall>m<t. a ! (i + m) = b ! (i + m)"
      then have "k - c \<le> i" by auto
      then show "\<exists>i. k - c \<le> i \<and> i + t \<le> n \<and> (\<forall>m<t. a ! (i + m) = b ! (i + m))"
        using i by blast
    qed
    then show ?thesis using upt False IH by simp
  qed
qed

text \<open>For any threshold of at least 1, the result says whether a run of that length exists.\<close>

lemma is_duplicate_runs:
  assumes "1 \<le> t"
  shows "is_duplicate env (Some m1) (Some m2) (int t) =
         (\<exists>i. aligned_run (str_lower env m1) (str_lower env m2) i t)"
proof -
  let ?a = "str_lower env m1" and ?b = "str_lower env m2"
  let ?n = "min (length ?a) (length ?b)"
  have "is_duplicate_loop ?a ?b (int t) [0..<?n] 0 (int 0) =
        (\<exists>i. 0 - 0 \<le> i \<and> i + t \<le> ?n \<and> (\<forall>m<t. ?a ! (i + m) = ?b ! (i + m)))"
    using assms by (intro is_duplicate_loop_runs) auto
  then show ?thesis
    by (simp add: is_duplicate_def Let_def aligned_run_nth)
qed

lemma is_duplicate_sym:
  "is_duplicate env m1 m2 DUPLICATE_THRESHOLD = is_duplicate env m2 m1 DUPLICATE_THRESHOLD"
proof (cases m1)
  case None
  then show ?thesis by (simp add: is_duplicate_def split: option.splits)
next
  case a: (Some a)
  show ?thesis
  proof (cases m2)
    case None
    then show ?thesis by (simp add: is_duplicate_def split: option.splits)
  next
    case (Some b)
    show ?thesis
      using is_duplicate_runs[of 10 env a b] is_duplicate_runs[of 10 env b a]
        aligned_run_sym[of "str_lower env a" "str_lower env b"]
      by (simp add: a Some DUPLICATE_THRESHOLD_def)
  qed
qed

text \<open>
  C1. For two messages that are not \<^verbatim>\<open>None\<close>, \<^verbatim>\<open>_is_duplicate(m1, m2, 10)\<close> is true
  exactly when the lower-cased strings agree on a run of at least 10 consecutive
  positions. So it is true when such a run exists and false when every run of equal
  positions, the last one included, is shorter than 10.
\<close>

theorem is_duplicate_iff_run_of_10:
  "is_duplicate env (Some m1) (Some m2) 10 =
     (\<exists>i n. 10 \<le> n \<and> aligned_run (str_lower env m1) (str_lower env m2) i n)"
proof -
  have "is_duplicate env (Some m1) (Some m2) (int 10) =
        (\<exists>i. aligned_run (str_lower env m1) (str_lower env m2) i 10)"
    by (rule is_duplicate_runs) simp
  moreover have "(\<exists>i. aligned_run (str_lower env m1) (str_lower env m2) i 10) =
        (\<exists>i n. 10 \<le> n \<and> aligned_run (str_lower env m1) (str_lower env m2) i n)"
    using aligned_run_shorter by blast
  ultimately show ?thesis by simp
qed

theorem is_duplicate_iff_run_of_10_witness:
  "is_duplicate sample_env (Some ''NPE at line 10 in FooService'')
     (Some ''NPE AT LINE 10 in FooService xyz123'') 10
   \<and> (\<exists>i n. 10 \<le> n \<and>
         aligned_run (str_lower sample_env ''NPE at line 10 in FooService'')
           (str_lower sample_env ''NPE AT LINE 10 in FooService xyz123'') i n)
   \<and> \<not> is_duplicate sample_env (Some ''disk is full'') (Some ''Disc is gone'') 10
   \<and> \<not> (\<exists>i n. 10 \<le> n \<and>
         aligned_run (str_lower sample_env ''disk is full'')
           (str_lower sample_env ''Disc is gone'') i n)"
proof -
  have yes: "is_duplicate sample_env (Some ''NPE at line 10 in FooService'')
     (Some ''NPE AT LINE 10 in FooService xyz123'') 10"
    by code_simp
  have no: "\<not> is_duplicate sample_env (Some ''disk is full'') (Some ''Disc is gone'') 10"
    by code_simp
  show ?thesis
    using yes no
      is_duplicate_iff_run_of_10[of sample_env "''NPE at line 10 in FooService''"
        "''NPE AT LINE 10 in FooService xyz123''"]
      is_duplicate_iff_run_of_10[of sample_env "''disk is full''" "''Disc is gone''"]
    by blast
qed

subsection \<open>\<^verbatim>\<open>__eq__\<close> never holds between two logs\<close>

lemma Log_eq_Instance: "Log_eq a (Instance b) = Inr False"
  by (simp add: Log_eq_def isinstance_def)

text \<open>
  C9. For any two \<^verbatim>\<open>Log\<close> objects, also two with the same five fields, \<^verbatim>\<open>__eq__\<close>
  returns \<^verbatim>\<open>False\<close>: \<^verbatim>\<open>Log.__class__\<close> is the metaclass \<^verbatim>\<open>type\<close>, an instance of
  \<^verbatim>\<open>Log\<close> is not an instance of it, and the guard of line 109 returns before any field
  is compared.
\<close>

theorem Log_eq_instances: "Log_eq a (Instance b) = Inr False"
  by (simp add: Log_eq_def isinstance_def)

theorem Log_eq_instances_witness:
  "Log_eq (sample_heap ! 0) (Instance (sample_heap ! 0)) = Inr False
   \<and> Log_eq (sample_heap ! 0) (Instance (sample_heap ! 1)) = Inr False"
  using Log_eq_instances[of "sample_heap ! 0" "sample_heap ! 0"]
    Log_eq_instances[of "sample_heap ! 0" "sample_heap ! 1"] by simp

text \<open>
  C2 says that two records are equal exactly when their five fields are. The code does
  not do that: here are two records with the same five fields, and \<^verbatim>\<open>__eq__\<close> returns
  \<^verbatim>\<open>False\<close>.
\<close>

theorem Log_eq_same_fields:
  "Log_eq \<lparr>application = ''A'', severity = ''error'', message = Some ''disk is full'',
            stacktrace = '''', date = (1672628645000000 :: int)\<rparr>
     (Instance \<lparr>application = ''A'', severity = ''error'', message = Some ''disk is full'',
            stacktrace = '''', date = 1672628645000000\<rparr>) = Inr False"
  by (simp add: Log_eq_def isinstance_def)

subsection \<open>What \<^verbatim>\<open>remove_useless_logs\<close> keeps\<close>

text \<open>Since \<^verbatim>\<open>__eq__\<close> is never true, the set holds objects by identity.\<close>

lemma same_key_iff: "same_key obj x y = (x = y)"
  by (simp add: same_key_def Log_eq_Instance)

lemma set_contains_iff: "set_contains obj s x = (x \<in> set s)"
  by (auto simp: set_contains_def same_key_iff list_ex_iff)

lemma set_set_add: "set (set_add obj x s) = insert x (set s)"
  by (auto simp: set_add_def set_contains_iff)

lemma distinct_set_add: "distinct s \<Longrightarrow> distinct (set_add obj x s)"
  by (auto simp: set_add_def set_contains_iff)

lemma set_set_remove: "set (set_remove obj x s) = set s - {x}"
  by (auto simp: set_remove_def same_key_iff)

lemma distinct_set_remove: "distinct s \<Longrightarrow> distinct (set_remove obj x s)"
  by (simp add: set_remove_def)

lemma fold_set_add:
  "set (fold (set_add obj) items acc) = set items \<union> set acc
   \<and> (distinct acc \<longrightarrow> distinct (fold (set_add obj) items acc))"
  by (induction items arbitrary: acc) (auto simp: set_set_add distinct_set_add)

lemma set_set_of_list: "set (set_of_list obj items) = set items"
  by (simp add: set_of_list_def fold_set_add)

lemma distinct_set_of_list: "distinct (set_of_list obj items)"
  by (simp add: set_of_list_def fold_set_add)

lemma inner_fold:
  "set (fold (\<lambda>j tmp_set.
          if is_duplicate env (message (obj (items ! i))) (message (obj (items ! j)))
               DUPLICATE_THRESHOLD \<and> set_contains obj tmp_set (items ! j)
          then set_remove obj (items ! j) tmp_set else tmp_set) js tmp)
   = set tmp - {items ! j | j. j \<in> set js \<and> dup_at env obj items i j}"
  by (induction js arbitrary: tmp) (auto simp: set_set_remove set_contains_iff dup_at_def)

lemma inner_fold_distinct:
  "distinct tmp \<Longrightarrow> distinct (fold (\<lambda>j tmp_set.
          if is_duplicate env (message (obj (items ! i))) (message (obj (items ! j)))
               DUPLICATE_THRESHOLD \<and> set_contains obj tmp_set (items ! j)
          then set_remove obj (items ! j) tmp_set else tmp_set) js tmp)"
  by (induction js arbitrary: tmp) (auto simp: distinct_set_remove)

lemma outer_fold:
  "set (fold (\<lambda>i. fold (\<lambda>j tmp_set.
          if is_duplicate env (message (obj (items ! i))) (message (obj (items ! j)))
               DUPLICATE_THRESHOLD \<and> set_contains obj tmp_set (items ! j)
          then set_remove obj (items ! j) tmp_set else tmp_set) [i + 1..<n]) is tmp)
   = set tmp - {items ! j | i j. i \<in> set is \<and> i < j \<and> j < n \<and> dup_at env obj items i j}"
proof (induction "is" arbitrary: tmp)
  case Nil
  then show ?case by simp
next
  case (Cons i "is")
  have split: "{items ! j | i' j. i' \<in> set (i # is) \<and> i' < j \<and> j < n \<and> dup_at env obj items i' j}
      = {items ! j | j. j \<in> set [i + 1..<n] \<and> dup_at env obj items i j}
        \<union> {items ! j | i' j. i' \<in> set is \<and> i' < j \<and> j < n \<and> dup_at env obj items i' j}"
    by fastforce
  show ?case
    unfolding fold_Cons o_apply Cons.IH inner_fold split
    by blast
qed

lemma outer_fold_distinct:
  "distinct tmp \<Longrightarrow> distinct (fold (\<lambda>i. fold (\<lambda>j tmp_set.
          if is_duplicate env (message (obj (items ! i))) (message (obj (items ! j)))
               DUPLICATE_THRESHOLD \<and> set_contains obj tmp_set (items ! j)
          then set_remove obj (items ! j) tmp_set else tmp_set) [i + 1..<n]) is tmp)"
  by (induction "is" arbitrary: tmp) (auto simp: inner_fold_distinct)

lemma set_remove_useless_logs:
  "set (remove_useless_logs env obj items) =
     set items - {items ! j | i j. i < j \<and> j < length items \<and> dup_at env obj items i j}"
  unfolding remove_useless_logs_def Let_def outer_fold set_set_of_list
  by auto

lemma distinct_remove_useless_logs: "distinct (remove_useless_logs env obj items)"
  unfolding remove_useless_logs_def Let_def
  by (intro outer_fold_distinct distinct_set_of_list)

lemma survivors_not_duplicates:
  assumes a: "a \<in> set (remove_useless_logs env obj items)"
    and b: "b \<in> set (remove_useless_logs env obj items)"
    and ab: "a \<noteq> b"
  shows "\<not> is_duplicate env (message (obj a)) (message (obj b)) DUPLICATE_THRESHOLD"
proof
  assume d: "is_duplicate env (message (obj a)) (message (obj b)) DUPLICATE_THRESHOLD"
  from a obtain pa where pa: "pa < length items" "items ! pa = a"
    by (auto simp: set_remove_useless_logs in_set_conv_nth)
  from b obtain pb where pb: "pb < length items" "items ! pb = b"
    by (auto simp: set_remove_useless_logs in_set_conv_nth)
  have "pa \<noteq> pb" using pa pb ab by auto
  then consider "pa < pb" | "pb < pa" by linarith
  then show False
  proof cases
    case 1
    then have "dup_at env obj items pa pb" using d pa pb by (simp add: dup_at_def)
    then show False using b 1 pb by (auto simp: set_remove_useless_logs)
  next
    case 2
    have "dup_at env obj items pb pa"
      using d pa pb is_duplicate_sym[of env "message (obj a)" "message (obj b)"]
      by (simp add: dup_at_def)
    then show False using a 2 pa by (auto simp: set_remove_useless_logs)
  qed
qed

lemma remove_useless_logs_fixed:
  assumes "distinct ys"
    and "\<And>a b. a \<in> set ys \<Longrightarrow> b \<in> set ys \<Longrightarrow> a \<noteq> b \<Longrightarrow>
           \<not> is_duplicate env (message (obj a)) (message (obj b)) DUPLICATE_THRESHOLD"
  shows "set (remove_useless_logs env obj ys) = set ys"
proof -
  have empty: "{ys ! j | i j. i < j \<and> j < length ys \<and> dup_at env obj ys i j} = {}"
  proof -
    have "\<not> dup_at env obj ys i j" if "i < j" "j < length ys" for i j
    proof -
      have "ys ! i \<noteq> ys ! j" using that assms(1) by (simp add: nth_eq_iff_index_eq)
      moreover have "ys ! i \<in> set ys" "ys ! j \<in> set ys" using that by auto
      ultimately show ?thesis using assms(2) by (simp add: dup_at_def)
    qed
    then show ?thesis by blast
  qed
  show ?thesis unfolding set_remove_useless_logs empty by simp
qed

text \<open>
  C3. \<^verbatim>\<open>remove_useless_logs\<close> is idempotent: run on its own output, it keeps the same
  set of records as the first run did. The output is a set written back to a list in an
  order Python does not fix, so the same holds for every list \<open>ys\<close> that holds the
  survivors once each, in any order.
\<close>

theorem remove_useless_logs_idempotent:
  "set (remove_useless_logs env obj (remove_useless_logs env obj items)) =
     set (remove_useless_logs env obj items)
   \<and> (distinct ys \<and> set ys = set (remove_useless_logs env obj items) \<longrightarrow>
        set (remove_useless_logs env obj ys) = set (remove_useless_logs env obj items))"
proof (intro conjI impI)
  show "set (remove_useless_logs env obj (remove_useless_logs env obj items)) =
     set (remove_useless_logs env obj items)"
    by (intro remove_useless_logs_fixed distinct_remove_useless_logs survivors_not_duplicates)
next
  assume ys: "distinct ys \<and> set ys = set (remove_useless_logs env obj items)"
  have "set (remove_useless_logs env obj ys) = set ys"
  proof (intro remove_useless_logs_fixed)
    show "distinct ys" using ys by simp
  next
    fix a b assume "a \<in> set ys" "b \<in> set ys" "a \<noteq> b"
    then show "\<not> is_duplicate env (message (obj a)) (message (obj b)) DUPLICATE_THRESHOLD"
      using ys survivors_not_duplicates[of a env obj items b] by simp
  qed
  then show "set (remove_useless_logs env obj ys) = set (remove_useless_logs env obj items)"
    using ys by simp
qed

theorem remove_useless_logs_idempotent_witness:
  "set (remove_useless_logs sample_env ((!) sample_heap)
          (remove_useless_logs sample_env ((!) sample_heap) [0, 1, 2])) =
     set (remove_useless_logs sample_env ((!) sample_heap) [0, 1, 2])
   \<and> distinct [1, 0 :: nat]
   \<and> set [1, 0] = set (remove_useless_logs sample_env ((!) sample_heap) [0, 1, 2])
   \<and> set (remove_useless_logs sample_env ((!) sample_heap) [1, 0]) =
       set (remove_useless_logs sample_env ((!) sample_heap) [0, 1, 2])"
proof -
  have e: "remove_useless_logs sample_env ((!) sample_heap) [0, 1, 2] = [0, 1]"
    by code_simp
  have d: "distinct [1, 0 :: nat] \<and> set [1, 0] = set [0, 1 :: nat]" by auto
  show ?thesis
    using remove_useless_logs_idempotent[of sample_env "(!) sample_heap" "[0, 1, 2]" "[1, 0]"]
      d unfolding e by blast
qed

text \<open>
  C10, as the code has it. Every record of the output is a record of the input. When no
  object occurs twice in the input and the input is not empty, its first element is
  among the survivors, so the output is not empty.
\<close>

theorem remove_useless_logs_keeps:
  "set (remove_useless_logs env obj items) \<subseteq> set items
   \<and> (distinct items \<and> items \<noteq> [] \<longrightarrow>
        hd items \<in> set (remove_useless_logs env obj items)
        \<and> remove_useless_logs env obj items \<noteq> [])"
proof (intro conjI impI)
  show "set (remove_useless_logs env obj items) \<subseteq> set items"
    by (auto simp: set_remove_useless_logs)
next
  assume h: "distinct items \<and> items \<noteq> []"
  then have 0: "hd items = items ! 0" "0 < length items" by (auto simp: hd_conv_nth)
  have "items ! 0 \<notin> {items ! j | i j. i < j \<and> j < length items \<and> dup_at env obj items i j}"
  proof
    assume "items ! 0 \<in> {items ! j | i j. i < j \<and> j < length items \<and> dup_at env obj items i j}"
    then obtain i j where ij: "items ! 0 = items ! j" "i < j" "j < length items" by blast
    then have "0 = j" using h 0 by (simp add: nth_eq_iff_index_eq)
    then show False using ij by simp
  qed
  moreover have "items ! 0 \<in> set items" using 0 by simp
  ultimately show hd: "hd items \<in> set (remove_useless_logs env obj items)"
    unfolding set_remove_useless_logs 0(1) by blast
  then show "remove_useless_logs env obj items \<noteq> []" by auto
qed

theorem remove_useless_logs_keeps_witness:
  "set (remove_useless_logs sample_env ((!) sample_heap) [0, 1, 2]) \<subseteq> set [0, 1, 2]
   \<and> distinct [0, 1, 2 :: nat] \<and> [0, 1, 2 :: nat] \<noteq> []
   \<and> hd [0, 1, 2] \<in> set (remove_useless_logs sample_env ((!) sample_heap) [0, 1, 2])
   \<and> remove_useless_logs sample_env ((!) sample_heap) [0, 1, 2] \<noteq> []"
proof -
  have d: "distinct [0, 1, 2 :: nat] \<and> [0, 1, 2 :: nat] \<noteq> []" by simp
  show ?thesis
    using remove_useless_logs_keeps[of sample_env "(!) sample_heap" "[0, 1, 2]"] d by blast
qed

text \<open>
  Without that condition the claim fails: in a list that holds the same object twice,
  the second occurrence is compared with the first, the message (of 10 characters or
  more) duplicates itself, and the object is removed. The output is empty.
\<close>

theorem remove_useless_logs_empties_aliased:
  "[0, 0 :: nat] \<noteq> []
   \<and> remove_useless_logs sample_env ((!) sample_heap) [0, 0] = []
   \<and> hd [0, 0] \<notin> set (remove_useless_logs sample_env ((!) sample_heap) [0, 0])"
proof -
  have "remove_useless_logs sample_env ((!) sample_heap) [0, 0] = []" by code_simp
  then show ?thesis by simp
qed

subsection \<open>Parsing a timestamp\<close>

text \<open>
  C7. \<^verbatim>\<open>_parse_timestamp\<close> always returns a datetime and never raises: the value of
  the format with fractional seconds when \<^verbatim>\<open>strptime\<close> accepts the text in it,
  otherwise the value of the format with whole seconds when \<^verbatim>\<open>strptime\<close> accepts the
  text in that one, otherwise the current time. So the constructor of \<^verbatim>\<open>Log\<close> never
  fails on a timestamp.
\<close>

theorem parse_timestamp_never_raises:
  "(\<exists>dt w'. parse_timestamp env dt_str w = (Inr dt, w'))
   \<and> (strptime env dt_str ''%Y-%m-%dT%H:%M:%S.%fZ'' = Inr dt \<longrightarrow>
        parse_timestamp env dt_str w = (Inr dt, w))
   \<and> (strptime env dt_str ''%Y-%m-%dT%H:%M:%S.%fZ'' = Inl e
        \<and> strptime env dt_str ''%Y-%m-%dT%H:%M:%SZ'' = Inr dt \<longrightarrow>
        parse_timestamp env dt_str w = (Inr dt, w))
   \<and> (strptime env dt_str ''%Y-%m-%dT%H:%M:%S.%fZ'' = Inl e
        \<and> strptime env dt_str ''%Y-%m-%dT%H:%M:%SZ'' = Inl e' \<longrightarrow>
        parse_timestamp env dt_str w =
          (Inr (today env (clock_reads w)), w\<lparr>clock_reads := clock_reads w + 1\<rparr>))
   \<and> (\<exists>log w'. Log_init env app sev msg st dt_str w = (Inr log, w'))"
  by (auto simp: parse_timestamp_def Log_init_def split: sum.splits)

theorem parse_timestamp_never_raises_witness:
  "parse_timestamp sample_env ''2023-01-02T03:04:05.123456Z'' sample_world =
     (Inr 1672628645123456, sample_world)
   \<and> parse_timestamp sample_env ''2023-01-02T03:04:05Z'' sample_world =
     (Inr 1672628645000000, sample_world)
   \<and> parse_timestamp sample_env ''not-a-date'' sample_world =
     (Inr 1700000000000000, sample_world\<lparr>clock_reads := 1\<rparr>)
   \<and> (\<exists>log w'. Log_init sample_env ''A'' ''error'' None None ''not-a-date'' sample_world
                  = (Inr log, w'))"
proof -
  have a: "strptime sample_env ''2023-01-02T03:04:05.123456Z'' ''%Y-%m-%dT%H:%M:%S.%fZ''
           = Inr 1672628645123456"
    by (simp add: sample_env_def)
  have b: "strptime sample_env ''2023-01-02T03:04:05Z'' ''%Y-%m-%dT%H:%M:%S.%fZ''
             = Inl (ValueError ''time data does not match format'')
           \<and> strptime sample_env ''2023-01-02T03:04:05Z'' ''%Y-%m-%dT%H:%M:%SZ''
             = Inr 1672628645000000"
    by (simp add: sample_env_def)
  have c: "strptime sample_env ''not-a-date'' ''%Y-%m-%dT%H:%M:%S.%fZ''
             = Inl (ValueError ''time data does not match format'')
           \<and> strptime sample_env ''not-a-date'' ''%Y-%m-%dT%H:%M:%SZ''
             = Inl (ValueError ''time data does not match format'')"
    by (simp add: sample_env_def)
  have t: "today sample_env 0 = 1700000000000000 \<and> clock_reads sample_world = 0"
    by (simp add: sample_env_def sample_world_def)
  show ?thesis
    using a b c t
      parse_timestamp_never_raises[of sample_env "''2023-01-02T03:04:05.123456Z''" sample_world
        "1672628645123456"]
      parse_timestamp_never_raises[of sample_env "''2023-01-02T03:04:05Z''" sample_world
        "1672628645000000" "ValueError ''time data does not match format''"]
      parse_timestamp_never_raises[of sample_env "''not-a-date''" sample_world _
        "ValueError ''time data does not match format''"
        "ValueError ''time data does not match format''" "''A''" "''error''" None None]
    by simp
qed

subsection \<open>Sending an empty batch\<close>

text \<open>
  C8. For the empty mapping \<^verbatim>\<open>send_data\<close> returns at once: it makes no request to
  Slack, neither an upload nor a message.
\<close>

theorem send_data_empty:
  "send_data env self [] w = (Inr (), w) \<and> sent (snd (send_data env self [] w)) = sent w"
  by (simp add: send_data_def)

theorem send_data_empty_witness:
  "send_data sample_env sample_sender [] sample_world = (Inr (), sample_world)
   \<and> sent (snd (send_data sample_env sample_sender [] sample_world)) = []"
  using send_data_empty[of sample_env sample_sender sample_world]
  by (simp add: sample_world_def)

subsection \<open>What each function leaves unchanged\<close>

lemma parse_timestamp_frame:
  "parse_timestamp env s w = (r, w') \<Longrightarrow>
     heap w' = heap w \<and> last_update_time w' = last_update_time w
     \<and> requests w' = requests w \<and> sent w' = sent w"
  by (auto simp: parse_timestamp_def split: sum.splits)

lemma Log_init_frame:
  "Log_init env a s m st ts w = (r, w') \<Longrightarrow>
     last_update_time w' = last_update_time w \<and> requests w' = requests w \<and> sent w' = sent w"
  by (auto simp: Log_init_def split: prod.splits sum.splits dest: parse_timestamp_frame)

lemma parse_frame:
  "parse env data w = (r, w') \<Longrightarrow>
     last_update_time w' = last_update_time w \<and> requests w' = requests w \<and> sent w' = sent w"
proof (induction data arbitrary: w r w')
  case Nil
  then show ?case by simp
next
  case (Cons entry data)
  show ?case
    using Cons.prems
    by (auto simp: Let_def split: field.splits prod.splits sum.splits
        dest!: Log_init_frame Cons.IH)
qed

lemma load_log_world:
  "snd (load_log log (result, w)) =
     w\<lparr>last_update_time := max (date (heap w ! log)) (last_update_time w)\<rparr>"
  by (simp add: load_log_def Let_def)

lemma fold_load_log_frame:
  "heap (snd (fold load_log logs (result, w))) = heap w
   \<and> requests (snd (fold load_log logs (result, w))) = requests w
   \<and> sent (snd (fold load_log logs (result, w))) = sent w
   \<and> clock_reads (snd (fold load_log logs (result, w))) = clock_reads w"
  by (induction logs arbitrary: result w) (auto simp: load_log_def Let_def)

lemma fold_load_log_cursor:
  "last_update_time (snd (fold load_log logs (result, w))) =
     fold (\<lambda>log c. max (date (heap w ! log)) c) logs (last_update_time w)"
  by (induction logs arbitrary: result w) (auto simp: load_log_def Let_def)

lemma fold_max_ge: "(c::'a::linorder) \<le> fold (\<lambda>x c. max (f x) c) xs c"
proof (induction xs arbitrary: c)
  case Nil
  then show ?case by simp
next
  case (Cons x xs)
  have "c \<le> max (f x) c" by simp
  also have "\<dots> \<le> fold (\<lambda>x c. max (f x) c) xs (max (f x) c)" by (rule Cons.IH)
  finally show ?case by simp
qed

lemma fold_load_log_mono:
  "last_update_time w \<le> last_update_time (snd (fold load_log logs (result, w)))"
  unfolding fold_load_log_cursor by (rule fold_max_ge)

lemma load_loop_frame:
  assumes "load_loop env result w = Some y"
  shows "last_update_time w \<le> last_update_time (snd y) \<and> sent (snd y) = sent w"
proof (induct rule: load_loop.raw_induct[OF _ assms])
  case (1 load_loop env result w y)
  show ?case
  proof (cases "search env (length (requests w))")
    case (Inl e)
    then show ?thesis using 1(2) by (auto simp: load_json_def)
  next
    case (Inr data)
    show ?thesis
    proof (cases "length data = 0")
      case True
      then show ?thesis using 1(2) Inr by (auto simp: load_json_def)
    next
      case False
      let ?w1 = "w\<lparr>requests := requests w @ [last_update_time w]\<rparr>"
      obtain p w2 where p: "parse env data ?w1 = (p, w2)" by (cases "parse env data ?w1")
      then have f2: "last_update_time w2 = last_update_time w" "sent w2 = sent w"
        using parse_frame[OF p] by auto
      show ?thesis
      proof (cases p)
        case (Inl e)
        then show ?thesis using 1(2) Inr False p f2 by (auto simp: load_json_def)
      next
        case logs: (Inr logs)
        obtain result' w3 where f: "fold load_log logs (result, w2) = (result', w3)"
          by (cases "fold load_log logs (result, w2)")
        have f3: "last_update_time w2 \<le> last_update_time w3" "sent w3 = sent w2"
          using fold_load_log_mono[of w2 logs result] fold_load_log_frame[of logs result w2] f
          by auto
        have "load_loop env result' w3 = Some y"
          using 1(2) Inr False p logs f by (auto simp: load_json_def)
        from 1(1)[OF this] show ?thesis using f2 f3 by auto
      qed
    qed
  qed
qed

lemma load_frame:
  "load env w = Some (r, w') \<Longrightarrow>
     last_update_time w \<le> last_update_time w' \<and> sent w' = sent w"
  by (auto simp: load_def split: option.splits prod.splits sum.splits dest: load_loop_frame)

lemma send_msg_frame:
  "send_msg env self title text' pretext color w = (r, w') \<Longrightarrow>
     last_update_time w' = last_update_time w"
  by (auto simp: send_msg_def Let_def split: option.splits)

lemma send_logs_frame:
  "send_logs env self app logs w = (r, w') \<Longrightarrow> last_update_time w' = last_update_time w"
proof (induction logs arbitrary: w r w')
  case Nil
  then show ?case by simp
next
  case (Cons log logs)
  show ?case
    using Cons.prems
    by (auto simp: Let_def split: option.splits dest!: Cons.IH)
qed

lemma send_items_frame:
  "send_items env self items w = (r, w') \<Longrightarrow> last_update_time w' = last_update_time w"
proof (induction items arbitrary: w r w')
  case Nil
  then show ?case by simp
next
  case (Cons item items)
  obtain app logs where item: "item = (app, logs)" by (cases item)
  show ?case
    using Cons.prems unfolding item
    by (auto split: prod.splits sum.splits dest!: Cons.IH send_logs_frame)
qed

lemma send_data_frame:
  "send_data env self items w = (r, w') \<Longrightarrow> last_update_time w' = last_update_time w"
  by (auto simp: send_data_def split: if_splits dest: send_items_frame)

lemma send_error_frame:
  "send_error env self text' w = (r, w') \<Longrightarrow> last_update_time w' = last_update_time w"
  by (auto simp: send_error_def dest: send_msg_frame)

lemma watcher_iteration_mono:
  assumes "watcher_iteration env sender w = Some (r, w')"
  shows "last_update_time w \<le> last_update_time w'"
proof -
  obtain loaded w1 where l: "load env w = Some (loaded, w1)"
    using assms by (auto simp: watcher_iteration_def split: option.splits)
  then have 1: "last_update_time w \<le> last_update_time w1" using load_frame by blast
  have "last_update_time w' = last_update_time w1"
    using assms l
    by (auto simp: watcher_iteration_def
        split: option.splits prod.splits sum.splits
        dest!: send_error_frame send_data_frame)
  then show ?thesis using 1 by simp
qed

subsection \<open>The sample run\<close>

lemma search_sample: "search sample_env 0 = Inr sample_page \<and> search sample_env (Suc 0) = Inr []"
  by (simp add: sample_env_def sample_page_def)

lemma serves_sample: "serves sample_env (length (requests sample_world)) [sample_page]"
  by (simp add: search_sample sample_world_def)
    (simp add: sample_page_def sample_hit_def well_formed_def)

lemma load_sample:
  "load sample_env sample_world = Some (Inr [(''A'', [0]), (''B'', [1])], sample_loaded)"
  by code_simp

lemma watcher_iteration_sample:
  "watcher_iteration sample_env sample_sender sample_world \<noteq> None"
  by code_simp

lemma load_failing:
  "load failing_env sample_world =
     Some (Inl (URLError ''timed out''), sample_world\<lparr>requests := [1600000000000000]\<rparr>)"
  by code_simp

subsection \<open>The cursor\<close>

text \<open>
  C4. The cursor \<^verbatim>\<open>_last_update_time\<close> never moves backwards. After each record the
  loop of \<^verbatim>\<open>load\<close> takes, it is the maximum of its value before and the date of the
  record; so after any list of records it is at least what it was, and so it is after
  \<^verbatim>\<open>load\<close> and after a whole pass of the watcher, whatever they return.
\<close>

theorem cursor_never_moves_back:
  "last_update_time (snd (load_log log (result, w))) =
     max (date (heap w ! log)) (last_update_time w)
   \<and> last_update_time (snd (fold load_log logs (result, w))) =
       fold (\<lambda>log c. max (date (heap w ! log)) c) logs (last_update_time w)
   \<and> last_update_time w \<le> last_update_time (snd (fold load_log logs (result, w)))
   \<and> (load env w0 = Some (r, w1) \<longrightarrow> last_update_time w0 \<le> last_update_time w1)
   \<and> (watcher_iteration env sender w0 = Some (r', w2) \<longrightarrow>
        last_update_time w0 \<le> last_update_time w2)"
  using load_frame[of env w0 r w1] watcher_iteration_mono[of env sender w0 r' w2]
    fold_load_log_mono[of w logs result]
  by (simp add: load_log_world fold_load_log_cursor)

theorem cursor_never_moves_back_witness:
  "load sample_env sample_world = Some (Inr [(''A'', [0]), (''B'', [1])], sample_loaded)
   \<and> last_update_time sample_world \<le> last_update_time sample_loaded
   \<and> (\<exists>r w. watcher_iteration sample_env sample_sender sample_world = Some (r, w)
          \<and> last_update_time sample_world \<le> last_update_time w)
   \<and> last_update_time (snd (load_log 0 ([], sample_loaded))) =
       max (date (heap sample_loaded ! 0)) (last_update_time sample_loaded)
   \<and> last_update_time sample_loaded
       \<le> last_update_time (snd (fold load_log [0, 1, 2] ([], sample_loaded)))"
proof -
  obtain r w where i: "watcher_iteration sample_env sample_sender sample_world = Some (r, w)"
    using watcher_iteration_sample by auto
  show ?thesis
    using load_sample i
      cursor_never_moves_back[where log = 0 and result = "[]" and w = sample_loaded
        and logs = "[0, 1, 2]" and env = sample_env and ?w0.0 = sample_world
        and r = "Inr [(''A'', [0]), (''B'', [1])]" and ?w1.0 = sample_loaded
        and sender = sample_sender and r' = r and ?w2.0 = w]
    by blast
qed

subsection \<open>\<^verbatim>\<open>load\<close> reads pages up to the first empty one\<close>

lemma map_of_setdefault:
  "map_of (setdefault d k v) = (if map_of d k = None then (map_of d)(k \<mapsto> v) else map_of d)"
  by (auto simp: setdefault_def fun_eq_iff map_add_def split: option.splits)

lemma distinct_setdefault:
  "distinct (map fst d) \<Longrightarrow> distinct (map fst (setdefault d k v))"
  by (auto simp: setdefault_def map_of_eq_None_iff)

lemma fst_get_append: "map fst (get_append d k x) = map fst d"
  by (induction d) (auto simp: get_append_def)

lemma map_of_get_append:
  "map_of (get_append d k x) k' =
     (if k' = k then map_option (\<lambda>v. v @ [x]) (map_of d k) else map_of d k')"
  by (induction d) (auto simp: get_append_def)

lemma grouped_by_step:
  assumes "grouped_by h refs d"
  shows "grouped_by h (refs @ [r])
           (get_append (setdefault d (application (h ! r)) []) (application (h ! r)) r)"
proof -
  let ?a = "application (h ! r)"
  have d: "distinct (map fst d)"
    and m: "\<And>app. map_of d app =
            (if filter (\<lambda>r. application (h ! r) = app) refs = [] then None
             else Some (filter (\<lambda>r. application (h ! r) = app) refs))"
    using assms by (auto simp: grouped_by_def Let_def)
  have "distinct (map fst (get_append (setdefault d ?a []) ?a r))"
    using d by (simp add: fst_get_append distinct_setdefault)
  moreover have "map_of (get_append (setdefault d ?a []) ?a r) app =
      (if filter (\<lambda>r. application (h ! r) = app) (refs @ [r]) = [] then None
       else Some (filter (\<lambda>r. application (h ! r) = app) (refs @ [r])))" for app
    by (simp add: map_of_get_append map_of_setdefault m)
  ultimately show ?thesis by (simp add: grouped_by_def Let_def)
qed

lemma load_log_heap: "heap (snd (load_log log (d, w))) = heap w"
  by (simp add: load_log_def Let_def)

lemma load_log_fst:
  "fst (load_log log (d, w)) =
     get_append (setdefault d (application (heap w ! log)) []) (application (heap w ! log)) log"
  by (simp add: load_log_def Let_def)

lemma grouped_by_fold:
  assumes "grouped_by (heap w) refs d"
  shows "grouped_by (heap w) (refs @ logs) (fst (fold load_log logs (d, w)))"
  using assms
proof (induction logs arbitrary: refs d w)
  case Nil
  then show ?case by simp
next
  case (Cons log logs)
  obtain d1 w1 where s: "load_log log (d, w) = (d1, w1)" by (cases "load_log log (d, w)")
  have h: "heap w1 = heap w" using load_log_heap[of log d w] s by simp
  have "grouped_by (heap w1) (refs @ [log]) d1"
    using grouped_by_step[OF Cons.prems, of log] load_log_fst[of log d w] s h by simp
  from Cons.IH[OF this] show ?case using s h by simp
qed

lemma grouped_by_heap_append:
  assumes "grouped_by h refs d" "\<forall>r\<in>set refs. r < length h"
  shows "grouped_by (h @ new) refs d"
proof -
  have "filter (\<lambda>r. application ((h @ new) ! r) = app) refs =
        filter (\<lambda>r. application (h ! r) = app) refs" for app
    using assms(2) by (intro filter_cong) (auto simp: nth_append)
  then show ?thesis using assms(1) by (simp add: grouped_by_def)
qed

lemma not_Absent: "(x \<noteq> Absent) = (\<exists>a. x = Present a)"
  by (cases x) auto

lemma upt_Suc_shift: "[k..<k + Suc n] = k # [Suc k..<Suc k + n]"
  by (simp add: upt_conv_Cons del: upt_Suc)

lemma parse_timestamp_Inr:
  "\<exists>dt w0. parse_timestamp env ts w = (Inr dt, w0) \<and> heap w0 = heap w"
  by (simp add: parse_timestamp_def split: sum.splits)

lemma parse_well_formed:
  assumes "list_all well_formed data"
  shows "\<exists>new w'. parse env data w =
           (Inr [length (heap w)..<length (heap w) + length data], w')
         \<and> heap w' = heap w @ new \<and> length new = length data
         \<and> map application new = map entry_application data
         \<and> map message new = map entry_message data"
  using assms
proof (induction data arbitrary: w)
  case Nil
  then show ?case by simp
next
  case (Cons entry data)
  from Cons.prems obtain information a s ts where
    e: "entry = Present information" "src_application information = Present a"
       "src_severity information = Present s" "src_timestamp information = Present ts"
    by (auto simp: well_formed_def not_Absent split: field.splits)
  let ?m = "case src_message information of Absent \<Rightarrow> Some '''' | Present m \<Rightarrow> m"
  let ?st = "case src_stacktrace information of Absent \<Rightarrow> Some '''' | Present s \<Rightarrow> s"
  obtain dt w0 where pt: "parse_timestamp env ts w = (Inr dt, w0)" "heap w0 = heap w"
    using parse_timestamp_Inr[of env ts w] by blast
  let ?l = "\<lparr>application = a, severity = s, message = ?m,
             stacktrace = (case ?st of None \<Rightarrow> '''' | Some s \<Rightarrow> s), date = dt\<rparr>"
  let ?w1 = "w0\<lparr>heap := heap w0 @ [?l]\<rparr>"
  have li: "Log_init env a s ?m ?st ts w = (Inr (length (heap w)), ?w1)"
    using pt by (simp add: Log_init_def)
  from Cons.prems have "list_all well_formed data" by simp
  from Cons.IH[OF this, of ?w1] obtain new w' where
    p: "parse env data ?w1 = (Inr [length (heap ?w1)..<length (heap ?w1) + length data], w')"
       "heap w' = heap ?w1 @ new" "length new = length data"
       "map application new = map entry_application data"
       "map message new = map entry_message data"
    by blast
  have up: "[length (heap w)..<length (heap w) + length (entry # data)] =
        length (heap w) # [length (heap ?w1)..<length (heap ?w1) + length data]"
    using pt(2) upt_Suc_shift[of "length (heap w)" "length data"] by simp
  have "parse env (entry # data) w =
        (Inr [length (heap w)..<length (heap w) + length (entry # data)], w')"
    unfolding up using e li p(1) by (simp add: Let_def)
  moreover have "heap w' = heap w @ (?l # new)" using p(2) pt(2) by simp
  moreover have "map application (?l # new) = map entry_application (entry # data)"
    using p(4) e by (simp add: entry_application_def)
  moreover have "map message (?l # new) = map entry_message (entry # data)"
    using p(5) e by (simp add: entry_message_def)
  moreover have "length (?l # new) = length (entry # data)" using p(3) by simp
  ultimately show ?case by blast
qed

lemma load_loop_serves:
  assumes "serves env (length (requests w)) pages"
    and "grouped_by (heap w) [h0..<length (heap w)] d"
    and "h0 \<le> length (heap w)"
  shows "\<exists>d' w' new. load_loop env d w = Some (Inr d', w')
         \<and> heap w' = heap w @ new
         \<and> map application new = map entry_application (concat pages)
         \<and> map message new = map entry_message (concat pages)
         \<and> grouped_by (heap w') [h0..<length (heap w')] d'
         \<and> length (requests w') = length (requests w) + length pages + 1"
  using assms
proof (induction pages arbitrary: w d)
  case Nil
  then have "load_loop env d w = Some (Inr d, w\<lparr>requests := requests w @ [last_update_time w]\<rparr>)"
    by (subst load_loop.simps) (simp add: load_json_def)
  then show ?case using Nil by auto
next
  case (Cons page pages)
  let ?w1 = "w\<lparr>requests := requests w @ [last_update_time w]\<rparr>"
  from Cons.prems(1) have s: "search env (length (requests w)) = Inr page" "page \<noteq> []"
    "list_all well_formed page" "serves env (Suc (length (requests w))) pages"
    by auto
  from parse_well_formed[OF s(3), of env ?w1] obtain new1 w2 where
    p: "parse env page ?w1 = (Inr [length (heap w)..<length (heap w) + length page], w2)"
       "heap w2 = heap w @ new1" "length new1 = length page"
       "map application new1 = map entry_application page"
       "map message new1 = map entry_message page"
    by auto
  have r2: "requests w2 = requests ?w1" using parse_frame[OF p(1)] by simp
  let ?logs = "[length (heap w)..<length (heap w) + length page]"
  obtain d3 w3 where f: "fold load_log ?logs (d, w2) = (d3, w3)"
    by (cases "fold load_log ?logs (d, w2)")
  have w3: "heap w3 = heap w2" "requests w3 = requests w2"
    using fold_load_log_frame[of ?logs d w2] f by auto
  have step: "load_loop env d w = load_loop env d3 w3"
    by (subst load_loop.simps) (simp add: load_json_def s p f)
  have "grouped_by (heap w2) [h0..<length (heap w)] d"
    unfolding p(2) using Cons.prems(2) by (intro grouped_by_heap_append) auto
  from grouped_by_fold[OF this, of ?logs] have "grouped_by (heap w2) ([h0..<length (heap w)] @ ?logs) d3"
    using f by simp
  moreover have "[h0..<length (heap w)] @ ?logs = [h0..<length (heap w3)]"
    using Cons.prems(3) w3 p(2,3) by (simp add: upt_add_eq_append[symmetric] le_Suc_ex)
  ultimately have g3: "grouped_by (heap w3) [h0..<length (heap w3)] d3" using w3 by simp
  have s3: "serves env (length (requests w3)) pages" using s(4) w3 r2 by simp
  have h3: "h0 \<le> length (heap w3)" using Cons.prems(3) w3 p(2) by simp
  from Cons.IH[OF s3 g3 h3] obtain d' w' new where
    r: "load_loop env d3 w3 = Some (Inr d', w')" "heap w' = heap w3 @ new"
       "map application new = map entry_application (concat pages)"
       "map message new = map entry_message (concat pages)"
       "grouped_by (heap w') [h0..<length (heap w')] d'"
       "length (requests w') = length (requests w3) + length pages + 1"
    by blast
  have "load_loop env d w = Some (Inr d', w')" using step r(1) by simp
  moreover have "heap w' = heap w @ (new1 @ new)" using r(2) w3 p(2) by simp
  moreover have "map application (new1 @ new) = map entry_application (concat (page # pages))"
    using r(3) p(4) by simp
  moreover have "map message (new1 @ new) = map entry_message (concat (page # pages))"
    using r(4) p(5) by simp
  moreover have "length (requests w') = length (requests w) + length (page # pages) + 1"
    using r(6) w3 r2 by simp
  ultimately show ?case using r(5) by blast
qed

text \<open>
  C5. When the backend answers with some pages and then with an empty one, \<^verbatim>\<open>load\<close>
  returns. It stops at the first empty page: it has made one request for each page and
  one more. Every hit of these pages has become a record, in the order of arrival,
  listed under its application name; and the mapping returned has, for each
  application, \<^verbatim>\<open>remove_useless_logs\<close> applied once to that list.
\<close>

theorem load_until_first_empty_page:
  assumes "serves env (length (requests w)) pages"
  shows "\<exists>grouped w' new.
           load env w =
             Some (Inr (map (\<lambda>(app, log_list).
                               (app, remove_useless_logs env ((!) (heap w')) log_list))
                          grouped), w')
           \<and> length (requests w') = length (requests w) + length pages + 1
           \<and> heap w' = heap w @ new
           \<and> map application new = map entry_application (concat pages)
           \<and> map message new = map entry_message (concat pages)
           \<and> grouped_by (heap w') [length (heap w)..<length (heap w')] grouped"
proof -
  have "grouped_by (heap w) [length (heap w)..<length (heap w)] []"
    by (simp add: grouped_by_def)
  from load_loop_serves[OF assms this] obtain d' w' new where
    r: "load_loop env [] w = Some (Inr d', w')" "heap w' = heap w @ new"
       "map application new = map entry_application (concat pages)"
       "map message new = map entry_message (concat pages)"
       "grouped_by (heap w') [length (heap w)..<length (heap w')] d'"
       "length (requests w') = length (requests w) + length pages + 1"
    by blast
  have "load env w =
          Some (Inr (map (\<lambda>(app, log_list).
                            (app, remove_useless_logs env ((!) (heap w')) log_list)) d'), w')"
    using r(1) by (simp add: load_def)
  then show ?thesis using r by blast
qed

theorem load_until_first_empty_page_witness:
  "serves sample_env (length (requests sample_world)) [sample_page]
   \<and> load sample_env sample_world = Some (Inr [(''A'', [0]), (''B'', [1])], sample_loaded)
   \<and> (\<exists>grouped w' new.
         load sample_env sample_world =
           Some (Inr (map (\<lambda>(app, log_list).
                             (app, remove_useless_logs sample_env ((!) (heap w')) log_list))
                        grouped), w')
         \<and> length (requests w') = length (requests sample_world) + length [sample_page] + 1
         \<and> heap w' = heap sample_world @ new
         \<and> map application new = map entry_application (concat [sample_page])
         \<and> map message new = map entry_message (concat [sample_page])
         \<and> grouped_by (heap w') [length (heap sample_world)..<length (heap w')] grouped)"
  using serves_sample load_sample
    load_until_first_empty_page[of sample_env sample_world "[sample_page]"]
  by blast

subsection \<open>A pass of the watcher in which \<^verbatim>\<open>load\<close> fails\<close>

text \<open>
  C6. When \<^verbatim>\<open>load\<close> raises an exception, the pass makes exactly one request to Slack,
  the error message of \<^verbatim>\<open>send_error\<close>, and no file upload: \<^verbatim>\<open>send_data\<close> runs on the
  empty mapping. (When the error message itself cannot be sent, that exception leaves
  the loop, and \<^verbatim>\<open>send_data\<close> does not run at all.)
\<close>

theorem load_failure_one_alert:
  assumes "load env w = Some (Inl e, w1)"
  shows "watcher_iteration env sender w =
           Some (case send_error env sender
                        (''error happened while loading logs from elastic search:'' @
                         error_str e) w1 of
                   (Inl e', w2) \<Rightarrow> (Inl e', w2)
                 | (Inr u, w2) \<Rightarrow> send_data env sender [] w2)
         \<and> (\<exists>r w2. watcher_iteration env sender w = Some (r, w2)
              \<and> sent w2 = sent w @
                  [Webhook_post (''https://hooks.slack.com/services/'' @
                                 channel_web_hook_url sender)
                     ''Error:'' ''danger'' ''There is something wrong with me :warning:''
                     (''error happened while loading logs from elastic search:'' @
                      error_str e)]
              \<and> filter is_upload (drop (length (sent w)) (sent w2)) = [])"
proof -
  have s: "sent w1 = sent w" using load_frame[OF assms] by simp
  show ?thesis
    using assms s
    by (auto simp: watcher_iteration_def send_error_def send_msg_def send_data_def Let_def
        split: option.splits)
qed

theorem load_failure_one_alert_witness:
  "load failing_env sample_world =
     Some (Inl (URLError ''timed out''), sample_world\<lparr>requests := [1600000000000000]\<rparr>)
   \<and> (\<exists>r w2. watcher_iteration failing_env sample_sender sample_world = Some (r, w2)
         \<and> sent w2 = sent sample_world @
             [Webhook_post (''https://hooks.slack.com/services/'' @
                            channel_web_hook_url sample_sender)
                ''Error:'' ''danger'' ''There is something wrong with me :warning:''
                (''error happened while loading logs from elastic search:'' @
                 error_str (URLError ''timed out''))]
         \<and> filter is_upload (drop (length (sent sample_world)) (sent w2)) = [])"
  using load_failing load_failure_one_alert[OF load_failing, of sample_sender]
  by blast

end
